theory Spec2Isabelle
  imports Main "HOL-Library.Sublist"
begin

section \<open>The line-oriented command interpreter of package cmd\<close>

text \<open>
  A shallow embedding of \<^verbatim>\<open>cmd.go\<close> (the package source that follows the example in
  \<^verbatim>\<open>src/example_std_test.go\<close>): the type \<^verbatim>\<open>Cmd\<close>, the constructor \<^verbatim>\<open>New\<close> and the
  methods \<^verbatim>\<open>parseLine\<close>, \<^verbatim>\<open>one\<close> and \<^verbatim>\<open>Loop\<close>.

  Go strings are byte strings: \<^typ>\<open>string\<close>. The two library functions the package calls
  on them, \<^verbatim>\<open>strings.TrimSpace\<close> and \<^verbatim>\<open>strings.Fields\<close>, are modelled on ASCII text, where
  white space is the six characters of Go's \<^verbatim>\<open>asciiSpace\<close> table; the multi-byte
  Unicode spaces are not modelled.
\<close>

subsection \<open>Strings\<close>

definition isSpace :: "char \<Rightarrow> bool" where
  "isSpace ch = (ch = CHR 0x09 \<or> ch = CHR ''\<newline>'' \<or> ch = CHR 0x0B \<or> ch = CHR 0x0C
                 \<or> ch = CHR 0x0D \<or> ch = CHR 0x20)"

text \<open>\<^verbatim>\<open>strings.TrimSpace\<close>: the string without its leading and trailing white space.\<close>

definition TrimSpace :: "string \<Rightarrow> string" where
  "TrimSpace s = rev (dropWhile isSpace (rev (dropWhile isSpace s)))"

text \<open>
  \<^verbatim>\<open>strings.Fields\<close>: the maximal runs of characters that are not white space, in order;
  the empty list when there is none.
\<close>

function Fields :: "string \<Rightarrow> string list" where
  "Fields s =
     (case dropWhile isSpace s of
        [] \<Rightarrow> []
      | x # xs \<Rightarrow> takeWhile (\<lambda>ch. \<not> isSpace ch) (x # xs)
                 # Fields (dropWhile (\<lambda>ch. \<not> isSpace ch) (x # xs)))"
  by pat_completeness auto
termination
proof (relation "measure length")
  show "wf (measure length)" by simp
next
  fix s :: string and x xs
  assume a: "dropWhile isSpace s = x # xs"
  have nx: "\<not> isSpace x"
    using a by (metis hd_dropWhile list.sel(1) list.distinct(1))
  have "length (dropWhile (\<lambda>ch. \<not> isSpace ch) (x # xs)) \<le> length xs"
    using nx by (simp add: length_dropWhile_le)
  also have "\<dots> < length (dropWhile isSpace s)"
    using a by simp
  also have "\<dots> \<le> length s"
    by (rule length_dropWhile_le)
  finally show "(dropWhile (\<lambda>ch. \<not> isSpace ch) (x # xs), s) \<in> measure length"
    by simp
qed

declare Fields.simps [simp del]

text \<open>A string of white space only, and a word: a non-empty string without white space.\<close>

definition is_blank :: "string \<Rightarrow> bool" where
  "is_blank s = list_all isSpace s"

definition is_word :: "string \<Rightarrow> bool" where
  "is_word w = (w \<noteq> [] \<and> list_all (\<lambda>ch. \<not> isSpace ch) w)"

subsection \<open>Errors, panics and the output stream\<close>

text \<open>A non-nil value of Go's \<^verbatim>\<open>error\<close>; \<^const>\<open>None\<close> of \<open>error option\<close> is \<^verbatim>\<open>nil\<close>.\<close>

datatype error = errorString string

definition io_EOF :: error where
  "io_EOF = errorString ''EOF''"

text \<open>A call either panics (a run-time error such as an index out of range) or returns.\<close>

datatype 'a result = Panics | Returns 'a

text \<open>
  An \<^verbatim>\<open>io.Writer\<close>: the payloads of the \<^verbatim>\<open>Write\<close> calls it has received, in order, and its
  behaviour, the error (if any) it answers a payload with after a given history. A
  \<^verbatim>\<open>bytes.Buffer\<close> never fails.
\<close>

record io_Writer =
  calls :: "string list"
  fails :: "string list \<Rightarrow> string \<Rightarrow> error option"

definition Write :: "io_Writer \<Rightarrow> string \<Rightarrow> io_Writer \<times> error option" where
  "Write w p = (w\<lparr>calls := calls w @ [p]\<rparr>, fails w (calls w) p)"

definition bytes_Buffer :: io_Writer where
  "bytes_Buffer = \<lparr>calls = [], fails = (\<lambda>h p. None)\<rparr>"

text \<open>A writer that answers every call with the same error, such as a closed pipe.\<close>

definition closed_Writer :: "error \<Rightarrow> io_Writer" where
  "closed_Writer e = \<lparr>calls = [], fails = (\<lambda>h p. Some e)\<rparr>"

subsection \<open>The interpreter\<close>

definition DefaultPrompt :: string where
  "DefaultPrompt = ''> ''"

type_synonym CmdFn = "string list \<Rightarrow> string \<times> error option"

text \<open>
  The field \<^verbatim>\<open>EmptyLine\<close> holds either the closure that \<^verbatim>\<open>New\<close> installs, which reads
  \<^verbatim>\<open>cmd.LastLine\<close> and calls \<^verbatim>\<open>cmd.one\<close>, or a function of the caller's, which has no
  access to the interpreter.
\<close>

datatype EmptyLineFn = EmptyLine_New | EmptyLine_func "unit \<Rightarrow> string \<times> error option"

record Cmd =
  In :: string
  Out :: io_Writer
  Prompt :: string
  Commands :: "string \<rightharpoonup> CmdFn"
  Default :: "string \<Rightarrow> (string \<times> error option) result"
  EmptyLine :: EmptyLineFn
  Tokens :: "string \<Rightarrow> string list"
  LastLine :: string

text \<open>
  The closure \<^verbatim>\<open>New\<close> installs in \<^verbatim>\<open>Default\<close>: \<^verbatim>\<open>strings.Fields(line)[0]\<close> is an unguarded
  index, which panics on an empty slice.
\<close>

definition Default_New :: "string \<Rightarrow> (string \<times> error option) result" where
  "Default_New line =
     (case Fields line of
        [] \<Rightarrow> Panics
      | f # fs \<Rightarrow> Returns (''unrecognized command: '' @ f @ ''\<newline>'', None))"


definition New :: "(string \<rightharpoonup> CmdFn) \<Rightarrow> string \<Rightarrow> io_Writer \<Rightarrow> Cmd" where
  "New c inp out =
     \<lparr>In = inp, Out = out, Prompt = DefaultPrompt, Commands = c, Default = Default_New,
      EmptyLine = EmptyLine_New, Tokens = Fields, LastLine = ''''\<rparr>"

definition parseLine :: "Cmd \<Rightarrow> string \<Rightarrow> string \<times> string list" where
  "parseLine c line =
     (let line' = TrimSpace line in
      if length line' = 0 then ('''', [])
      else
        let tokens = Tokens c line' in
        if length tokens = 0 then ('''', [])
        else (hd tokens, if length tokens > 1 then tl tokens else []))"

text \<open>
  What a call does besides writing, in the order in which it does it: the calls of the
  three kinds of callback, the look-up in the command table and the assignment to
  \<^verbatim>\<open>LastLine\<close>; a write is \<open>Wrote\<close> with its payload.
\<close>

datatype event =
    CallEmptyLine
  | SetLastLine string
  | Lookup string
  | CallDefault string
  | CallCmdFn string "string list"
  | Wrote string

text \<open>
  The end of \<^verbatim>\<open>one\<close>: a message that is not empty is written, and a failed write returns
  the writer's error in place of the command's.
\<close>

definition emit ::
  "event list \<times> Cmd \<times> (string \<times> error option) result \<Rightarrow> event list \<times> Cmd \<times> error option result"
where
  "emit b =
     (case b of
        (ev, c, Panics) \<Rightarrow> (ev, c, Panics)
      | (ev, c, Returns (msg, cmderr)) \<Rightarrow>
          if msg \<noteq> '''' then
            (case Write (Out c) msg of
               (w, Some err) \<Rightarrow> (ev @ [Wrote msg], c\<lparr>Out := w\<rparr>, Returns (Some err))
             | (w, None) \<Rightarrow> (ev @ [Wrote msg], c\<lparr>Out := w\<rparr>, Returns cmderr))
          else (ev, c, Returns cmderr))"

text \<open>The branch of \<^verbatim>\<open>one\<close> for a command name that is not empty.\<close>

definition dispatch ::
  "Cmd \<Rightarrow> string \<Rightarrow> string \<Rightarrow> string list \<Rightarrow> event list \<times> Cmd \<times> (string \<times> error option) result"
where
  "dispatch c line cmd args =
     (let c1 = c\<lparr>LastLine := line\<rparr> in
      case Commands c1 cmd of
        None \<Rightarrow> ([SetLastLine line, Lookup cmd, CallDefault line], c1, Default c1 line)
      | Some fn \<Rightarrow> ([SetLastLine line, Lookup cmd, CallCmdFn cmd args], c1, Returns (fn args)))"

text \<open>
  \<^verbatim>\<open>one\<close>. The closure of \<^verbatim>\<open>New\<close> in \<^verbatim>\<open>EmptyLine\<close> calls \<^verbatim>\<open>one\<close> again, and nothing in the code
  bounds that recursion: \<^const>\<open>None\<close> is a call that does not return.
\<close>

partial_function (option) one ::
  "Cmd \<Rightarrow> string \<Rightarrow> (event list \<times> Cmd \<times> error option result) option"
where
  "one c line =
     (case parseLine c line of
        (cmd, args) \<Rightarrow>
          if cmd = '''' then
            (case EmptyLine c of
               EmptyLine_func f \<Rightarrow> Some (emit ([CallEmptyLine], c, Returns (f ())))
             | EmptyLine_New \<Rightarrow>
                 if length (LastLine c) > 0 then
                   Option.bind (one c (LastLine c))
                     (\<lambda>r. case r of
                        (ev, c', Panics) \<Rightarrow> Some (emit (CallEmptyLine # ev, c', Panics))
                      | (ev, c', Returns err) \<Rightarrow>
                          Some (emit (CallEmptyLine # ev, c', Returns ('''', err))))
                 else Some (emit ([CallEmptyLine], c, Returns ('''', None))))
          else Some (emit (dispatch c line cmd args)))"

declare one.simps [code]

text \<open>
  \<^verbatim>\<open>bufio.Reader.ReadBytes('\n')\<close> on the bytes not yet read: the line with its terminator
  and what is left, or what is left with \<^verbatim>\<open>io.EOF\<close> when no terminator comes.
\<close>

definition ReadBytes :: "string \<Rightarrow> (string \<times> error option) \<times> string" where
  "ReadBytes rd =
     (case dropWhile (\<lambda>ch. ch \<noteq> CHR ''\<newline>'') rd of
        [] \<Rightarrow> ((rd, Some io_EOF), [])
      | nl # rest \<Rightarrow> ((takeWhile (\<lambda>ch. ch \<noteq> CHR ''\<newline>'') rd @ [nl], None), rest))"

text \<open>
  \<^verbatim>\<open>Loop\<close>, from the bytes \<open>rd\<close> its \<^verbatim>\<open>bufio.Reader\<close> has not yet handed out. It returns only
  with an error or by a panic of a callback; the events are those of all iterations.
\<close>

function Loop_from :: "Cmd \<Rightarrow> string \<Rightarrow> (event list \<times> Cmd \<times> error result) option" where
  "Loop_from c rd =
     (case Write (Out c) (Prompt c) of
        (w, Some err) \<Rightarrow> Some ([Wrote (Prompt c)], c\<lparr>Out := w\<rparr>, Returns err)
      | (w, None) \<Rightarrow>
          (case ReadBytes rd of
             ((line, Some err), rd') \<Rightarrow> Some ([Wrote (Prompt c)], c\<lparr>Out := w\<rparr>, Returns err)
           | ((line, None), rd') \<Rightarrow>
               (case one (c\<lparr>Out := w\<rparr>) line of
                  None \<Rightarrow> None
                | Some (ev, c', Panics) \<Rightarrow> Some (Wrote (Prompt c) # ev, c', Panics)
                | Some (ev, c', Returns (Some err)) \<Rightarrow>
                    Some (Wrote (Prompt c) # ev, c', Returns err)
                | Some (ev, c', Returns None) \<Rightarrow>
                    map_option (\<lambda>(ev', r). (Wrote (Prompt c) # ev @ ev', r))
                      (Loop_from c' rd'))))"
  by pat_completeness auto
termination
proof (relation "measure (\<lambda>(c, rd). length rd)", goal_cases)
  case 1
  show ?case by simp
next
  case (2 c rd x y xa ya xb yb x2 xc yc xd yd x2a)
  have r: "ReadBytes rd = ((xb, None), ya)"
    using 2(3,4,5) by (metis)
  obtain nl where d: "dropWhile (\<lambda>ch. ch \<noteq> CHR ''\<newline>'') rd = nl # ya"
  proof (cases "dropWhile (\<lambda>ch. ch \<noteq> CHR ''\<newline>'') rd")
    case Nil
    with r show ?thesis by (simp add: ReadBytes_def)
  next
    case (Cons nl rest)
    with r have "rest = ya" by (simp add: ReadBytes_def)
    with Cons that show ?thesis by simp
  qed
  have "length (nl # ya) \<le> length rd"
    unfolding d[symmetric] by (rule length_dropWhile_le)
  then show ?case by simp
qed

declare Loop_from.simps [simp del]

definition Loop :: "Cmd \<Rightarrow> (event list \<times> Cmd \<times> error result) option" where
  "Loop c = Loop_from c (In c)"

subsection \<open>Notions the properties are stated with\<close>

text \<open>The payloads of the writes among the events of a call, in order.\<close>

fun writes :: "event list \<Rightarrow> string list" where
  "writes [] = []"
| "writes (Wrote m # ev) = m # writes ev"
| "writes (e # ev) = writes ev"

text \<open>
  A line yields a command when \<^verbatim>\<open>parseLine\<close> returns a command name that is not empty; it
  yields a token when it is not blank and the tokenizer returns at least one token for it.
\<close>

definition has_cmd :: "Cmd \<Rightarrow> string \<Rightarrow> bool" where
  "has_cmd c line = (fst (parseLine c line) \<noteq> [])"

definition yields_token :: "Cmd \<Rightarrow> string \<Rightarrow> bool" where
  "yields_token c line = (TrimSpace line \<noteq> [] \<and> Tokens c (TrimSpace line) \<noteq> [])"

text \<open>
  The stored line is one that the closure of \<^verbatim>\<open>New\<close> in \<^verbatim>\<open>EmptyLine\<close> can repeat: it is empty,
  or it yields a command. \<^verbatim>\<open>New\<close> establishes this and \<^verbatim>\<open>one\<close> keeps it.
\<close>

definition lastline_ok :: "Cmd \<Rightarrow> bool" where
  "lastline_ok c =
     (case EmptyLine c of
        EmptyLine_func f \<Rightarrow> True
      | EmptyLine_New \<Rightarrow> LastLine c = [] \<or> has_cmd c (LastLine c))"

text \<open>An output stream none of whose writes fails.\<close>

definition reliable :: "io_Writer \<Rightarrow> bool" where
  "reliable w = (fails w = (\<lambda>h p. None))"

text \<open>Successive calls of \<^verbatim>\<open>one\<close> on the same interpreter, as the loop of \<^verbatim>\<open>TestOne\<close> makes them.\<close>

fun ones :: "Cmd \<Rightarrow> string list \<Rightarrow> Cmd option" where
  "ones c [] = Some c"
| "ones c (l # ls) = (case one c l of None \<Rightarrow> None | Some (ev, c', r) \<Rightarrow> ones c' ls)"

text \<open>
  The outputs of the lines \<open>ls\<close>, each processed by \<^verbatim>\<open>one\<close> with its terminator, in turn,
  up to and including the first whose processing does not return a nil error, with the
  way that one ended (\<^const>\<open>None\<close> when all lines were processed).
\<close>

fun line_outputs :: "Cmd \<Rightarrow> string list \<Rightarrow> (string list list \<times> error result option) option" where
  "line_outputs c [] = Some ([], None)"
| "line_outputs c (l # ls) =
     (case one c (l @ ''\<newline>'') of
        None \<Rightarrow> None
      | Some (ev, c', Panics) \<Rightarrow> Some ([writes ev], Some Panics)
      | Some (ev, c', Returns (Some err)) \<Rightarrow> Some ([writes ev], Some (Returns err))
      | Some (ev, c', Returns None) \<Rightarrow>
          map_option (\<lambda>(outs, stop). (writes ev # outs, stop)) (line_outputs c' ls))"

text \<open>The lines that \<^verbatim>\<open>Default\<close> was called with among the events of a call.\<close>

fun default_calls :: "event list \<Rightarrow> string list" where
  "default_calls [] = []"
| "default_calls (CallDefault l # ev) = l # default_calls ev"
| "default_calls (e # ev) = default_calls ev"

text \<open>A tokenizer of the caller's whose first token is empty.\<close>

definition empty_first :: "string \<Rightarrow> string list" where
  "empty_first line = ['''', ''x'']"

subsection \<open>The commands of the package's tests\<close>

text \<open>\<^verbatim>\<open>strings.Join\<close>, and \<^verbatim>\<open>fmt.Sprintf("%v", args)\<close> for a slice of strings.\<close>

fun Join :: "string list \<Rightarrow> string \<Rightarrow> string" where
  "Join [] sep = []"
| "Join [a] sep = a"
| "Join (a # b # bs) sep = a @ sep @ Join (b # bs) sep"

definition Sprint :: "string list \<Rightarrow> string" where
  "Sprint args = ''['' @ Join args '' '' @ '']''"

text \<open>The table \<^verbatim>\<open>commands\<close> of \<^verbatim>\<open>cmd_test.go\<close>.\<close>

definition good :: CmdFn where
  "good args = (''good '' @ Sprint args @ ''\<newline>'', None)"

definition bad :: CmdFn where
  "bad args = (''bad'' @ ''\<newline>'', Some (errorString ''oops''))"

definition commands :: "string \<rightharpoonup> CmdFn" where
  "commands = [''good'' \<mapsto> good, ''bad'' \<mapsto> bad]"

section \<open>Properties of the library functions\<close>

lemma is_blank_dropWhile: "is_blank s \<longleftrightarrow> dropWhile isSpace s = []"
  by (auto simp: is_blank_def list_all_iff)

lemma is_blank_append: "is_blank (s @ t) \<longleftrightarrow> is_blank s \<and> is_blank t"
  by (auto simp: is_blank_def)

lemma Fields_Nil_iff: "Fields s = [] \<longleftrightarrow> is_blank s"
proof (cases "dropWhile isSpace s")
  case Nil
  have "Fields s = []" by (subst Fields.simps) (simp only: Nil list.case)
  then show ?thesis using Nil by (simp add: is_blank_dropWhile del: dropWhile_eq_Nil_conv)
next
  case (Cons x xs)
  have "Fields s \<noteq> []" by (subst Fields.simps) (simp only: Cons list.case list.distinct not_False_eq_True)
  then show ?thesis using Cons by (simp add: is_blank_dropWhile del: dropWhile_eq_Nil_conv)
qed

lemma TrimSpace_Nil_iff: "TrimSpace s = [] \<longleftrightarrow> is_blank s"
proof (cases "dropWhile isSpace s")
  case Nil
  then show ?thesis by (simp only: TrimSpace_def is_blank_dropWhile) simp
next
  case (Cons x xs)
  then have "\<not> isSpace x" by (metis hd_dropWhile list.sel(1) list.distinct(1))
  then have "TrimSpace s \<noteq> []"
    using Cons by (auto simp: TrimSpace_def)
  then show ?thesis using Cons by (simp add: is_blank_dropWhile)
qed

lemma Fields_dropWhile: "Fields (dropWhile isSpace s) = Fields s"
  by (subst (1 2) Fields.simps) (simp add: dropWhile_idem)

lemma Fields_blank_append: "is_blank t \<Longrightarrow> Fields (t @ s) = Fields s"
proof -
  assume "is_blank t"
  then have "dropWhile isSpace (t @ s) = dropWhile isSpace s"
    by (simp add: is_blank_def list_all_iff)
  then show ?thesis by (metis Fields_dropWhile)
qed

lemma Fields_word_cons:
  assumes w: "is_word w" and r: "rest = [] \<or> isSpace (hd rest)"
  shows "Fields (w @ rest) = w # Fields rest"
proof -
  obtain x xs where wx: "w = x # xs" using w by (cases w) (auto simp: is_word_def)
  have nsp: "\<forall>ch\<in>set w. \<not> isSpace ch" using w by (simp add: is_word_def list_all_iff)
  have d: "dropWhile isSpace (w @ rest) = x # (xs @ rest)"
    using wx nsp by simp
  have t: "takeWhile (\<lambda>ch. \<not> isSpace ch) (w @ rest) = w"
    using nsp r by (cases rest) (auto simp: takeWhile_append2)
  have dd: "dropWhile (\<lambda>ch. \<not> isSpace ch) (w @ rest) = rest"
    using nsp r by (cases rest) (auto simp: dropWhile_append2)
  have "Fields (w @ rest) = takeWhile (\<lambda>ch. \<not> isSpace ch) (x # (xs @ rest))
          # Fields (dropWhile (\<lambda>ch. \<not> isSpace ch) (x # (xs @ rest)))"
    by (subst Fields.simps) (simp only: d list.case)
  also have "x # (xs @ rest) = w @ rest" using wx by simp
  finally show ?thesis using t dd by simp
qed

lemma takeWhile_append_stop: "\<not> P y \<Longrightarrow> takeWhile P (xs @ y # ys) = takeWhile P xs"
  by (induction xs) auto

lemma Fields_append_blank: "is_blank t \<Longrightarrow> Fields (s @ t) = Fields s"
proof (induction s rule: Fields.induct)
  case (1 s)
  show ?case
  proof (cases "dropWhile isSpace s")
    case Nil
    then have "is_blank (s @ t)" using 1(2) by (simp only: is_blank_append is_blank_dropWhile) simp
    then show ?thesis using Nil by (metis Fields_Nil_iff is_blank_dropWhile)
  next
    case (Cons x xs)
    let ?ns = "\<lambda>ch. \<not> isSpace ch"
    have nx: "\<not> isSpace x" using Cons by (metis hd_dropWhile list.sel(1) list.distinct(1))
    have ex: "\<exists>y\<in>set s. \<not> isSpace y" using Cons by (metis dropWhile_eq_Nil_conv list.distinct(1))
    have d: "dropWhile isSpace (s @ t) = (x # xs) @ t"
      using ex Cons by (metis dropWhile_append1)
    have IH: "Fields (dropWhile ?ns (x # xs) @ t) = Fields (dropWhile ?ns (x # xs))"
      using 1(1)[OF Cons 1(2)] .
    have tb: "t = [] \<or> isSpace (hd t)" using 1(2) by (cases t) (auto simp: is_blank_def)
    have tk: "takeWhile ?ns ((x # xs) @ t) = takeWhile ?ns (x # xs)"
    proof (cases t)
      case Nil
      then show ?thesis by simp
    next
      case (Cons a list)
      with tb have "\<not> \<not> isSpace a" by simp
      then show ?thesis unfolding Cons by (rule takeWhile_append_stop)
    qed
    have F1: "Fields (s @ t) = takeWhile ?ns ((x # xs) @ t) # Fields (dropWhile ?ns ((x # xs) @ t))"
      by (subst Fields.simps) (simp only: d append_Cons list.case)
    have F2: "Fields s = takeWhile ?ns (x # xs) # Fields (dropWhile ?ns (x # xs))"
      by (subst Fields.simps) (simp only: Cons list.case)
    show ?thesis
    proof (cases "\<exists>y\<in>set (x # xs). isSpace y")
      case True
      then obtain y where "y \<in> set (x # xs)" "\<not> \<not> isSpace y" by blast
      then have "dropWhile ?ns ((x # xs) @ t) = dropWhile ?ns (x # xs) @ t"
        by (rule dropWhile_append1)
      then show ?thesis using F1 F2 tk IH by simp
    next
      case False
      then have all: "\<And>y. y \<in> set (x # xs) \<Longrightarrow> \<not> isSpace y" by blast
      have a: "dropWhile ?ns ((x # xs) @ t) = dropWhile ?ns t"
        using all by (rule dropWhile_append2)
      have b: "dropWhile ?ns (x # xs) = []"
        using all by (simp only: dropWhile_eq_Nil_conv) blast
      have "dropWhile ?ns t = t" using tb by (cases t) auto
      then have "Fields (dropWhile ?ns ((x # xs) @ t)) = []" using a 1(2) by (simp add: Fields_Nil_iff)
      moreover have "Fields (dropWhile ?ns (x # xs)) = []" using b by (simp add: Fields_Nil_iff is_blank_def)
      ultimately show ?thesis using F1 F2 tk by simp
    qed
  qed
qed

lemma Fields_TrimSpace: "Fields (TrimSpace s) = Fields s"
proof -
  let ?d = "dropWhile isSpace s"
  have "?d = rev (rev ?d)" by simp
  also have "rev ?d = takeWhile isSpace (rev ?d) @ dropWhile isSpace (rev ?d)" by simp
  finally have "?d = TrimSpace s @ rev (takeWhile isSpace (rev ?d))"
    unfolding TrimSpace_def by (metis rev_append rev_rev_ident takeWhile_dropWhile_id)
  moreover have "is_blank (rev (takeWhile isSpace (rev ?d)))"
    by (simp add: is_blank_def list_all_iff) (metis set_takeWhileD)
  ultimately have "Fields ?d = Fields (TrimSpace s)" by (metis Fields_append_blank)
  then show ?thesis by (simp add: Fields_dropWhile)
qed

lemma Fields_words: "w \<in> set (Fields s) \<Longrightarrow> is_word w"
proof (induction s rule: Fields.induct)
  case (1 s)
  show ?case
  proof (cases "dropWhile isSpace s")
    case Nil
    have "Fields s = []" by (subst Fields.simps) (simp only: Nil list.case)
    then show ?thesis using 1(2) by simp
  next
    case (Cons x xs)
    let ?ns = "\<lambda>ch. \<not> isSpace ch"
    have nx: "\<not> isSpace x" using Cons by (metis hd_dropWhile list.sel(1) list.distinct(1))
    have F2: "Fields s = takeWhile ?ns (x # xs) # Fields (dropWhile ?ns (x # xs))"
      by (subst Fields.simps) (simp only: Cons list.case)
    have "is_word (takeWhile ?ns (x # xs))"
      using nx by (auto simp: is_word_def list_all_iff dest: set_takeWhileD)
    then show ?thesis using 1(1)[OF Cons] 1(2) F2 by auto
  qed
qed

section \<open>Properties of one\<close>

lemma emit_Panics: "emit (ev, c, Panics) = (ev, c, Panics)"
  by (simp add: emit_def)

lemma emit_empty: "emit (ev, c, Returns ([], cmderr)) = (ev, c, Returns cmderr)"
  by (simp add: emit_def)

lemma emit_msg:
  "msg \<noteq> [] \<Longrightarrow>
   emit (ev, c, Returns (msg, cmderr)) =
     (ev @ [Wrote msg], c\<lparr>Out := (Out c)\<lparr>calls := calls (Out c) @ [msg]\<rparr>\<rparr>,
      Returns (case fails (Out c) (calls (Out c)) msg of None \<Rightarrow> cmderr | Some err \<Rightarrow> Some err))"
  by (simp add: emit_def Write_def split: option.split)

lemma parseLine_Fields:
  "Tokens c = Fields \<Longrightarrow>
   parseLine c line = (case Fields line of [] \<Rightarrow> ([], []) | n # args \<Rightarrow> (n, args))"
proof -
  assume t: "Tokens c = Fields"
  show ?thesis
  proof (cases "Fields line")
    case Nil
    then have "TrimSpace line = []" by (simp add: Fields_Nil_iff TrimSpace_Nil_iff)
    then show ?thesis using Nil by (simp add: parseLine_def)
  next
    case (Cons n args)
    then have "TrimSpace line \<noteq> []" by (metis Fields_Nil_iff TrimSpace_Nil_iff list.distinct(1))
    then show ?thesis using Cons t by (cases args) (simp_all add: parseLine_def Fields_TrimSpace)
  qed
qed

lemma one_cmd:
  "parseLine c line = (cmd, args) \<Longrightarrow> cmd \<noteq> [] \<Longrightarrow>
   one c line = Some (emit (dispatch c line cmd args))"
  by (subst one.simps) simp

lemma one_empty_func:
  "fst (parseLine c line) = [] \<Longrightarrow> EmptyLine c = EmptyLine_func f \<Longrightarrow>
   one c line = Some (emit ([CallEmptyLine], c, Returns (f ())))"
  by (subst one.simps) (cases "parseLine c line", simp)

lemma one_empty_New:
  "fst (parseLine c line) = [] \<Longrightarrow> EmptyLine c = EmptyLine_New \<Longrightarrow>
   one c line =
     (if LastLine c = [] then Some ([CallEmptyLine], c, Returns None)
      else map_option (\<lambda>(ev, c', r). (CallEmptyLine # ev, c', r)) (one c (LastLine c)))"
  apply (subst one.simps)
  apply (cases "parseLine c line")
  apply (cases "one c (LastLine c)")
   apply (simp add: emit_empty)
  apply (auto split: prod.split result.split simp: emit_empty emit_Panics)
  done

lemma dispatch_found:
  "Commands c cmd = Some fn \<Longrightarrow>
   dispatch c line cmd args =
     ([SetLastLine line, Lookup cmd, CallCmdFn cmd args], c\<lparr>LastLine := line\<rparr>, Returns (fn args))"
  by (simp add: dispatch_def)

lemma dispatch_missing:
  "Commands c cmd = None \<Longrightarrow>
   dispatch c line cmd args =
     ([SetLastLine line, Lookup cmd, CallDefault line], c\<lparr>LastLine := line\<rparr>, Default c line)"
  by (simp add: dispatch_def)

lemma Fields_sep_words:
  assumes "length seps = length args"
    and "list_all (\<lambda>s. s \<noteq> [] \<and> is_blank s) seps"
    and "list_all is_word args"
    and "is_blank trail"
  shows "Fields (concat (map2 (@) seps args) @ trail) = args
         \<and> (concat (map2 (@) seps args) @ trail = []
            \<or> isSpace (hd (concat (map2 (@) seps args) @ trail)))"
  using assms
proof (induction seps args rule: list_induct2)
  case Nil
  then show ?case
    by (cases trail) (simp_all add: Fields_Nil_iff is_blank_def)
next
  case (Cons s seps a args)
  let ?r = "concat (map2 (@) seps args) @ trail"
  from Cons.prems have s: "s \<noteq> []" "is_blank s" and a: "is_word a"
    and rest: "list_all (\<lambda>s. s \<noteq> [] \<and> is_blank s) seps" "list_all is_word args"
    by simp_all
  from Cons.IH[OF rest Cons.prems(3)]
  have ih: "Fields ?r = args" and hd: "?r = [] \<or> isSpace (hd ?r)" by simp_all
  have "Fields (s @ a @ ?r) = Fields (a @ ?r)"
    using s(2) by (rule Fields_blank_append)
  also have "\<dots> = a # Fields ?r"
    using a hd by (rule Fields_word_cons)
  finally have 1: "Fields (concat (map2 (@) (s # seps) (a # args)) @ trail) = a # args"
    using ih by simp
  have 2: "isSpace (hd (concat (map2 (@) (s # seps) (a # args)) @ trail))"
    using s by (cases s) (simp_all add: is_blank_def)
  show ?case using 1 2 by blast
qed

lemma Fields_command_line:
  assumes "is_blank lead" and "is_word n"
    and "length seps = length args"
    and "list_all (\<lambda>s. s \<noteq> [] \<and> is_blank s) seps"
    and "list_all is_word args"
    and "is_blank trail"
  shows "Fields (lead @ n @ concat (map2 (@) seps args) @ trail) = n # args"
proof -
  let ?r = "concat (map2 (@) seps args) @ trail"
  from Fields_sep_words[OF assms(3-6)]
  have r: "Fields ?r = args" and hd: "?r = [] \<or> isSpace (hd ?r)" by simp_all
  have "Fields (lead @ n @ ?r) = Fields (n @ ?r)"
    using assms(1) by (rule Fields_blank_append)
  also have "\<dots> = n # Fields ?r"
    using assms(2) hd by (rule Fields_word_cons)
  finally show ?thesis using r by simp
qed

lemma one_diverges:
  assumes "EmptyLine c = EmptyLine_New" and "LastLine c \<noteq> []"
    and "fst (parseLine c (LastLine c)) = []"
  shows "one c (LastLine c) = None"
proof (rule ccontr)
  assume "one c (LastLine c) \<noteq> None"
  then obtain ev c' r where s: "one c (LastLine c) = Some (ev, c', r)"
    by (cases "one c (LastLine c)") auto
  from one_empty_New[OF assms(3) assms(1)] assms(2) s
  have "Some (ev, c', r) = Some (CallEmptyLine # ev, c', r)" by simp
  then show False by simp
qed

lemma one_unfold:
  "one c line =
     (case parseLine c line of
        (cmd, args) \<Rightarrow>
          if cmd \<noteq> [] then Some (emit (dispatch c line cmd args))
          else
            (case EmptyLine c of
               EmptyLine_func f \<Rightarrow> Some (emit ([CallEmptyLine], c, Returns (f ())))
             | EmptyLine_New \<Rightarrow>
                 if LastLine c = [] then Some ([CallEmptyLine], c, Returns None)
                 else
                   (case parseLine c (LastLine c) of
                      (cmd', args') \<Rightarrow>
                        if cmd' \<noteq> [] then
                          (case emit (dispatch c (LastLine c) cmd' args') of
                             (ev, c', r) \<Rightarrow> Some (CallEmptyLine # ev, c', r))
                        else None)))"
proof (cases "parseLine c line")
  case (Pair cmd args)
  show ?thesis
  proof (cases "cmd = []")
    case False
    with Pair show ?thesis by (simp add: one_cmd)
  next
    case True
    then have e: "fst (parseLine c line) = []" using Pair by simp
    show ?thesis
    proof (cases "EmptyLine c")
      case (EmptyLine_func f)
      with Pair True e show ?thesis by (simp add: one_empty_func)
    next
      case EmptyLine_New
      note rep = one_empty_New[OF e EmptyLine_New]
      show ?thesis
      proof (cases "LastLine c = []")
        case l: True
        with Pair True EmptyLine_New rep show ?thesis by simp
      next
        case l: False
        obtain cmd' args' where p': "parseLine c (LastLine c) = (cmd', args')"
          by (cases "parseLine c (LastLine c)")
        show ?thesis
        proof (cases "cmd' = []")
          case c': True
          then have "one c (LastLine c) = None"
            using one_diverges[OF EmptyLine_New l] p' by simp
          with Pair True EmptyLine_New l p' c' rep show ?thesis
            by simp
        next
          case c': False
          then have "one c (LastLine c) = Some (emit (dispatch c (LastLine c) cmd' args'))"
            using p' by (simp add: one_cmd)
          with Pair True EmptyLine_New l p' c' rep show ?thesis
            by (simp split: prod.split)
        qed
      qed
    qed
  qed
qed

lemma parseLine_cmd_not_blank: "parseLine c line = (cmd, args) \<Longrightarrow> cmd \<noteq> [] \<Longrightarrow> Fields line \<noteq> []"
proof -
  assume a: "parseLine c line = (cmd, args)" "cmd \<noteq> []"
  have "TrimSpace line \<noteq> []"
  proof
    assume "TrimSpace line = []"
    then have "parseLine c line = ([], [])" by (simp add: parseLine_def)
    with a show False by simp
  qed
  then show ?thesis by (simp add: Fields_Nil_iff TrimSpace_Nil_iff)
qed

lemma has_cmd_iff:
  "has_cmd c line \<longleftrightarrow> yields_token c line \<and> hd (Tokens c (TrimSpace line)) \<noteq> []"
  by (auto simp: has_cmd_def yields_token_def parseLine_def Let_def)

lemma has_cmd_Fields: "Tokens c = Fields \<Longrightarrow> has_cmd c line \<longleftrightarrow> yields_token c line"
proof -
  assume t: "Tokens c = Fields"
  have "hd (Fields s) \<noteq> []" if "Fields s \<noteq> []" for s
  proof -
    from that have "hd (Fields s) \<in> set (Fields s)" by simp
    then have "is_word (hd (Fields s))" by (rule Fields_words)
    then show ?thesis by (simp add: is_word_def)
  qed
  then show ?thesis using t by (auto simp: has_cmd_iff yields_token_def)
qed


lemma writes_append: "writes (ev @ ev') = writes ev @ writes ev'"
  by (induction ev rule: writes.induct) simp_all

lemma emit_frame:
  assumes "emit (ev, c, r) = (ev', c', r')" and "writes ev = []"
  shows "c' = c\<lparr>Out := (Out c)\<lparr>calls := calls (Out c) @ writes ev'\<rparr>\<rparr>"
proof (cases r)
  case Panics
  with assms show ?thesis by (simp add: emit_Panics)
next
  case (Returns res)
  obtain msg e where "res = (msg, e)" by (cases res)
  with assms Returns show ?thesis
    by (cases "msg = []") (auto simp: emit_empty emit_msg writes_append)
qed

lemma dispatch_frame:
  "dispatch c line cmd args = (ev, c', r) \<Longrightarrow> c' = c\<lparr>LastLine := line\<rparr> \<and> writes ev = []"
  by (cases "Commands c cmd") (auto simp: dispatch_found dispatch_missing)

lemma one_frame:
  assumes "one c line = Some (ev, c', r)"
  shows "c' = c\<lparr>LastLine := (if has_cmd c line then line else LastLine c),
                 Out := (Out c)\<lparr>calls := calls (Out c) @ writes ev\<rparr>\<rparr>"
proof -
  obtain cmd args where p: "parseLine c line = (cmd, args)" by (cases "parseLine c line")
  show ?thesis
  proof (cases "cmd = []")
    case False
    then have h: "has_cmd c line" using p by (simp add: has_cmd_def)
    obtain ev0 c0 r0 where d: "dispatch c line cmd args = (ev0, c0, r0)"
      by (cases "dispatch c line cmd args")
    from assms p False d have e: "emit (ev0, c0, r0) = (ev, c', r)" by (simp add: one_cmd)
    from dispatch_frame[OF d] emit_frame[OF e] h show ?thesis by simp
  next
    case True
    then have h: "\<not> has_cmd c line" using p by (simp add: has_cmd_def)
    show ?thesis
    proof (cases "EmptyLine c")
      case (EmptyLine_func f)
      with assms p True have "emit ([CallEmptyLine], c, Returns (f ())) = (ev, c', r)"
        by (simp add: one_empty_func)
      from emit_frame[OF this] h show ?thesis by simp
    next
      case EmptyLine_New
      show ?thesis
      proof (cases "LastLine c = []")
        case l: True
        with assms p True EmptyLine_New h show ?thesis by (auto simp: one_unfold)
      next
        case l: False
        obtain cmd' args' where p': "parseLine c (LastLine c) = (cmd', args')"
          by (cases "parseLine c (LastLine c)")
        obtain ev0 c0 r0 where d: "dispatch c (LastLine c) cmd' args' = (ev0, c0, r0)"
          by (cases "dispatch c (LastLine c) cmd' args'")
        obtain ev1 c1 r1 where e: "emit (ev0, c0, r0) = (ev1, c1, r1)"
          by (cases "emit (ev0, c0, r0)")
        from assms p True EmptyLine_New l p' d e
        have "cmd' \<noteq> []" and "ev = CallEmptyLine # ev1" and "c' = c1"
          by (auto simp: one_unfold split: if_splits)
        with dispatch_frame[OF d] emit_frame[OF e] h show ?thesis by simp
      qed
    qed
  qed
qed

lemma parseLine_frame [simp]:
  "parseLine (c\<lparr>Out := w\<rparr>) line = parseLine c line"
  "parseLine (c\<lparr>LastLine := l\<rparr>) line = parseLine c line"
  "parseLine (c\<lparr>In := i\<rparr>) line = parseLine c line"
  by (simp_all add: parseLine_def Let_def)

lemma has_cmd_frame [simp]:
  "has_cmd (c\<lparr>Out := w\<rparr>) line = has_cmd c line"
  "has_cmd (c\<lparr>LastLine := l\<rparr>) line = has_cmd c line"
  "has_cmd (c\<lparr>In := i\<rparr>) line = has_cmd c line"
  by (simp_all add: has_cmd_def)

lemma one_total:
  assumes "lastline_ok c"
  shows "\<exists>ev c' r. one c line = Some (ev, c', r)"
proof -
  obtain cmd args where p: "parseLine c line = (cmd, args)" by (cases "parseLine c line")
  show ?thesis
  proof (cases "cmd = []")
    case False
    with p show ?thesis by (cases "emit (dispatch c line cmd args)") (simp add: one_cmd)
  next
    case True
    show ?thesis
    proof (cases "EmptyLine c")
      case (EmptyLine_func f)
      with p True show ?thesis
        by (cases "emit ([CallEmptyLine], c, Returns (f ()))") (simp add: one_empty_func)
    next
      case EmptyLine_New
      show ?thesis
      proof (cases "LastLine c = []")
        case l: True
        with p True EmptyLine_New show ?thesis by (simp add: one_unfold)
      next
        case l: False
        with assms EmptyLine_New have "has_cmd c (LastLine c)" by (simp add: lastline_ok_def)
        then obtain cmd' args' where p': "parseLine c (LastLine c) = (cmd', args')" "cmd' \<noteq> []"
          by (cases "parseLine c (LastLine c)") (auto simp: has_cmd_def)
        with p True EmptyLine_New l show ?thesis
          by (cases "emit (dispatch c (LastLine c) cmd' args')") (simp add: one_unfold)
      qed
    qed
  qed
qed

lemma lastline_ok_frame:
  assumes "lastline_ok c"
  shows "lastline_ok (c\<lparr>LastLine := (if has_cmd c line then line else LastLine c), Out := w\<rparr>)"
  using assms by (cases "EmptyLine c") (auto simp: lastline_ok_def)

lemma lastline_ok_Out [simp]: "lastline_ok (c\<lparr>Out := w\<rparr>) = lastline_ok c"
  by (cases "EmptyLine c") (auto simp: lastline_ok_def)

lemma lastline_ok_New: "lastline_ok (New cs inp out)"
  by (simp add: lastline_ok_def New_def)

lemma parseLine_bad: "Tokens c = Fields \<Longrightarrow> parseLine c ''  bad \<newline>'' = (''bad'', [])"
proof -
  assume t: "Tokens c = Fields"
  have "Fields (''  '' @ ''bad'' @ concat (map2 (@) [] []) @ '' \<newline>'') = ''bad'' # []"
    by (rule Fields_command_line) (simp_all add: is_blank_def is_word_def isSpace_def)
  then have "Fields ''  bad \<newline>'' = [''bad'']" by simp
  then show ?thesis using t by (simp add: parseLine_Fields)
qed

lemma default_calls_append: "default_calls (ev @ ev') = default_calls ev @ default_calls ev'"
  by (induction ev rule: default_calls.induct) simp_all

lemma emit_events:
  assumes "emit (ev, c, r) = (ev', c', r')"
  shows "default_calls ev' = default_calls ev \<and> (r' = Panics \<longleftrightarrow> r = Panics)"
proof (cases r)
  case Panics
  with assms show ?thesis by (simp add: emit_Panics)
next
  case (Returns res)
  obtain msg e where "res = (msg, e)" by (cases res)
  with assms Returns show ?thesis
    by (cases "msg = []") (auto simp: emit_empty emit_msg default_calls_append)
qed

lemma dispatch_Default_New:
  assumes "Default c = Default_New" and "parseLine c line = (cmd, args)" and "cmd \<noteq> []"
    and "dispatch c line cmd args = (ev, c', r)"
  shows "r \<noteq> Panics \<and> (\<forall>l\<in>set (default_calls ev). Fields l \<noteq> [])"
proof -
  have f: "Fields line \<noteq> []" using assms(2,3) by (rule parseLine_cmd_not_blank)
  then have "Default c line \<noteq> Panics"
    using assms(1) by (cases "Fields line") (simp_all add: Default_New_def)
  with assms(4) f show ?thesis
    by (cases "Commands c cmd") (auto simp: dispatch_found dispatch_missing)
qed

lemma Fields_hello: "Fields ''hello '' = [''hello'']"
proof -
  have "Fields ([] @ ''hello'' @ concat (map2 (@) [] []) @ '' '') = ''hello'' # []"
    by (rule Fields_command_line) (simp_all add: is_blank_def is_word_def isSpace_def)
  then show ?thesis by simp
qed

lemma one_hello:
  "one (New commands [] bytes_Buffer) ''hello '' =
     Some ([SetLastLine ''hello '', Lookup ''hello'', CallDefault ''hello '',
            Wrote ''unrecognized command: hello\<newline>''],
           (New commands [] bytes_Buffer)
             \<lparr>LastLine := ''hello '',
              Out := bytes_Buffer\<lparr>calls := [''unrecognized command: hello\<newline>'']\<rparr>\<rparr>,
           Returns None)"
proof -
  let ?c = "New commands [] bytes_Buffer"
  have "parseLine ?c ''hello '' = (''hello'', [])"
    by (simp add: parseLine_Fields New_def Fields_hello)
  then have "one ?c ''hello '' = Some (emit (dispatch ?c ''hello '' ''hello'' []))"
    by (rule one_cmd) simp
  moreover have "Commands ?c ''hello'' = None" by (simp add: New_def commands_def)
  moreover have "Default ?c ''hello '' = Returns (''unrecognized command: hello\<newline>'', None)"
    by (simp add: New_def Default_New_def Fields_hello)
  ultimately show ?thesis
    by (simp add: dispatch_missing emit_msg) (simp add: New_def bytes_Buffer_def)
qed

lemma one_LastLine:
  "one c line = Some (ev, c', r) \<Longrightarrow> LastLine c' = (if has_cmd c line then line else LastLine c)"
  by (drule one_frame) (cases "has_cmd c line", (erule ssubst, simp)+)

lemma one_empty_hd:
  assumes "fst (parseLine c line) = []" and "one c line = Some (ev, c', r)"
  shows "\<exists>ev'. ev = CallEmptyLine # ev'"
proof (cases "EmptyLine c")
  case (EmptyLine_func f)
  obtain msg e where "f () = (msg, e)" by (cases "f ()")
  with assms EmptyLine_func show ?thesis
    by (cases "msg = []") (auto simp: one_empty_func emit_empty emit_msg)
next
  case EmptyLine_New
  from assms(2) one_empty_New[OF assms(1) EmptyLine_New] show ?thesis
    by (cases "LastLine c = []"; cases "one c (LastLine c)") auto
qed

lemma parseLine_blank: "is_blank b \<Longrightarrow> parseLine c b = ([], [])"
  by (simp add: parseLine_def TrimSpace_Nil_iff)

lemma has_cmd_not_Nil: "has_cmd c line \<Longrightarrow> line \<noteq> []"
  by (auto simp: has_cmd_def parseLine_def TrimSpace_def)

lemma emit_reliable:
  assumes "reliable (Out c)"
  shows "emit (ev, c, Returns (msg, e)) =
           (ev @ (if msg = [] then [] else [Wrote msg]),
            c\<lparr>Out := (Out c)\<lparr>calls := calls (Out c) @ (if msg = [] then [] else [msg])\<rparr>\<rparr>,
            Returns e)"
  using assms by (cases "msg = []") (simp_all add: emit_empty emit_msg reliable_def)

lemma emit_reliable_same:
  assumes "reliable (Out c)" and "reliable (Out d)"
    and "emit (ev, c, r) = (ev', c', r')"
  shows "emit (ev, d, r) = (ev', d\<lparr>Out := (Out d)\<lparr>calls := calls (Out d) @ writes ev'\<rparr>\<rparr>, r')
         \<or> writes ev \<noteq> []"
proof (cases r)
  case Panics
  with assms(3) show ?thesis by (cases "writes ev = []") (auto simp: emit_Panics)
next
  case (Returns res)
  obtain msg e where "res = (msg, e)" by (cases res)
  with assms Returns show ?thesis
    by (cases "writes ev = []") (auto simp: emit_reliable writes_append)
qed

lemma dispatch_same:
  assumes "Commands d = Commands c" and "Default d = Default c"
    and "dispatch c line cmd args = (ev, c', r)"
  shows "dispatch d line cmd args = (ev, d\<lparr>LastLine := line\<rparr>, r)"
  using assms by (cases "Commands c cmd") (auto simp: dispatch_found dispatch_missing)

lemma Fields_good_x: "Fields ''good x'' = [''good'', ''x'']"
proof -
  have "Fields ([] @ ''good'' @ concat (map2 (@) ['' ''] [''x'']) @ []) = ''good'' # [''x'']"
    by (rule Fields_command_line) (simp_all add: is_blank_def is_word_def isSpace_def)
  then show ?thesis by simp
qed

lemma ones_LastLine:
  "lastline_ok c \<Longrightarrow>
   \<exists>c'. ones c ls = Some c'
        \<and> LastLine c' = (if filter (has_cmd c) ls = [] then LastLine c
                         else last (filter (has_cmd c) ls))"
proof (induction ls arbitrary: c)
  case Nil
  then show ?case by simp
next
  case (Cons l ls)
  obtain ev c1 r where o: "one c l = Some (ev, c1, r)"
    using one_total[OF Cons.prems] by blast
  let ?w = "(Out c)\<lparr>calls := calls (Out c) @ writes ev\<rparr>"
  have c1: "c1 = c\<lparr>LastLine := (if has_cmd c l then l else LastLine c), Out := ?w\<rparr>"
    using o by (rule one_frame)
  have ok: "lastline_ok c1" unfolding c1 using Cons.prems by (rule lastline_ok_frame)
  have same: "has_cmd c1 = has_cmd c" unfolding c1 by (rule ext) simp
  from Cons.IH[OF ok] obtain c' where
    c': "ones c1 ls = Some c'"
        "LastLine c' = (if filter (has_cmd c1) ls = [] then LastLine c1
                        else last (filter (has_cmd c1) ls))"
    by blast
  have l1: "LastLine c1 = (if has_cmd c l then l else LastLine c)" using c1 by simp
  show ?case using o c' same l1 by auto
qed

lemma ReadBytes_line:
  "CHR ''\<newline>'' \<notin> set l \<Longrightarrow> ReadBytes (l @ CHR ''\<newline>'' # rest) = ((l @ ''\<newline>'', None), rest)"
proof -
  assume a: "CHR ''\<newline>'' \<notin> set l"
  let ?P = "\<lambda>ch. ch \<noteq> CHR ''\<newline>''"
  have all: "\<And>x. x \<in> set l \<Longrightarrow> ?P x" using a by auto
  have d: "dropWhile ?P (l @ CHR ''\<newline>'' # rest) = dropWhile ?P (CHR ''\<newline>'' # rest)"
    using all by (rule dropWhile_append2)
  have t: "takeWhile ?P (l @ CHR ''\<newline>'' # rest) = l @ takeWhile ?P (CHR ''\<newline>'' # rest)"
    using all by (rule takeWhile_append2)
  show ?thesis by (simp add: ReadBytes_def d t)
qed

lemma ReadBytes_EOF:
  "CHR ''\<newline>'' \<notin> set tail \<Longrightarrow> ReadBytes tail = ((tail, Some io_EOF), [])"
proof -
  assume "CHR ''\<newline>'' \<notin> set tail"
  then have "dropWhile (\<lambda>ch. ch \<noteq> CHR ''\<newline>'') tail = []" by auto
  then show ?thesis by (simp only: ReadBytes_def list.case)
qed

lemma one_Out_cmd:
  assumes rel: "reliable (Out c)" "reliable w" and h: "has_cmd c line"
    and o: "one c line = Some (ev, c1, r)"
  shows "one (c\<lparr>Out := w\<rparr>) line = Some (ev, c1\<lparr>Out := w\<lparr>calls := calls w @ writes ev\<rparr>\<rparr>, r)"
proof -
  obtain n args where p: "parseLine c line = (n, args)" "n \<noteq> []"
    using h by (cases "parseLine c line") (auto simp: has_cmd_def)
  obtain ev0 c0 r0 where d: "dispatch c line n args = (ev0, c0, r0)"
    by (cases "dispatch c line n args")
  have e: "emit (ev0, c0, r0) = (ev, c1, r)" using o p d by (simp add: one_cmd)
  have c0: "c0 = c\<lparr>LastLine := line\<rparr>" and w0: "writes ev0 = []"
    using dispatch_frame[OF d] by simp_all
  have c1: "c1 = c\<lparr>LastLine := line, Out := (Out c)\<lparr>calls := calls (Out c) @ writes ev\<rparr>\<rparr>"
    using one_frame[OF o] h by simp
  let ?d = "c\<lparr>Out := w\<rparr>"
  have d': "dispatch ?d line n args = (ev0, ?d\<lparr>LastLine := line\<rparr>, r0)"
    using d by (rule dispatch_same[rotated 2]) simp_all
  have "emit (ev0, ?d\<lparr>LastLine := line\<rparr>, r0) =
          (ev, ?d\<lparr>LastLine := line\<rparr>
                 \<lparr>Out := (Out (?d\<lparr>LastLine := line\<rparr>))
                           \<lparr>calls := calls (Out (?d\<lparr>LastLine := line\<rparr>)) @ writes ev\<rparr>\<rparr>, r)"
    using emit_reliable_same[OF _ _ e, of "?d\<lparr>LastLine := line\<rparr>"] rel c0 w0 by simp
  then have "emit (ev0, ?d\<lparr>LastLine := line\<rparr>, r0) = (ev, c1\<lparr>Out := w\<lparr>calls := calls w @ writes ev\<rparr>\<rparr>, r)"
    by (simp add: c1)
  moreover have "parseLine ?d line = (n, args)" using p by simp
  ultimately show ?thesis using p(2) d' by (simp add: one_cmd)
qed

lemma one_Out_indep:
  assumes rel: "reliable (Out c)" "reliable w"
    and o: "one c line = Some (ev, c1, r)"
  shows "one (c\<lparr>Out := w\<rparr>) line = Some (ev, c1\<lparr>Out := w\<lparr>calls := calls w @ writes ev\<rparr>\<rparr>, r)"
proof (cases "has_cmd c line")
  case True
  show ?thesis using rel True o by (rule one_Out_cmd)
next
  case False
  then have p: "fst (parseLine c line) = []" by (simp add: has_cmd_def)
  then have p': "fst (parseLine (c\<lparr>Out := w\<rparr>) line) = []" by simp
  show ?thesis
  proof (cases "EmptyLine c")
    case (EmptyLine_func f)
    then have el: "EmptyLine (c\<lparr>Out := w\<rparr>) = EmptyLine_func f" by simp
    from o have e: "emit ([CallEmptyLine], c, Returns (f ())) = (ev, c1, r)"
      using one_empty_func[OF p EmptyLine_func] by simp
    have c1: "c1 = c\<lparr>Out := (Out c)\<lparr>calls := calls (Out c) @ writes ev\<rparr>\<rparr>"
      using emit_frame[OF e] by simp
    have "emit ([CallEmptyLine], c\<lparr>Out := w\<rparr>, Returns (f ())) =
            (ev, c\<lparr>Out := w\<lparr>calls := calls w @ writes ev\<rparr>\<rparr>, r)"
      using emit_reliable_same[OF _ _ e, of "c\<lparr>Out := w\<rparr>"] rel by simp
    then show ?thesis using one_empty_func[OF p' el] by (simp add: c1)
  next
    case EmptyLine_New
    then have el: "EmptyLine (c\<lparr>Out := w\<rparr>) = EmptyLine_New" by simp
    note a = one_empty_New[OF p EmptyLine_New] and b = one_empty_New[OF p' el]
    show ?thesis
    proof (cases "LastLine c = []")
      case True
      with o a b show ?thesis by auto
    next
      case False
      with o a obtain ev' where i: "one c (LastLine c) = Some (ev', c1, r)" and ev: "ev = CallEmptyLine # ev'"
        by (cases "one c (LastLine c)") auto
      have "has_cmd c (LastLine c)"
      proof (rule ccontr)
        assume "\<not> has_cmd c (LastLine c)"
        then have "one c (LastLine c) = None"
          using one_diverges[OF EmptyLine_New False] by (simp add: has_cmd_def)
        with i show False by simp
      qed
      from one_Out_cmd[OF rel this i]
      have "one (c\<lparr>Out := w\<rparr>) (LastLine c) = Some (ev', c1\<lparr>Out := w\<lparr>calls := calls w @ writes ev'\<rparr>\<rparr>, r)" .
      with b False ev show ?thesis by simp
    qed
  qed
qed

lemma reliable_calls [simp]: "reliable (w\<lparr>calls := cs\<rparr>) = reliable w"
  by (simp add: reliable_def)

lemma Write_reliable: "reliable w \<Longrightarrow> Write w p = (w\<lparr>calls := calls w @ [p]\<rparr>, None)"
  by (simp add: Write_def reliable_def)

lemma Loop_from_EOF:
  assumes "fails (Out c) (calls (Out c)) (Prompt c) = None" and "CHR ''\<newline>'' \<notin> set tail"
  shows "Loop_from c tail =
           Some ([Wrote (Prompt c)], c\<lparr>Out := (Out c)\<lparr>calls := calls (Out c) @ [Prompt c]\<rparr>\<rparr>,
                 Returns io_EOF)"
  by (subst Loop_from.simps) (simp add: Write_def assms(1) ReadBytes_EOF[OF assms(2)])

lemma Loop_from_line:
  assumes "Prompt c = p" and "fails (Out c) (calls (Out c)) p = None" and "CHR ''\<newline>'' \<notin> set l"
  shows "Loop_from c (l @ CHR ''\<newline>'' # rest) =
           (case one (c\<lparr>Out := (Out c)\<lparr>calls := calls (Out c) @ [p]\<rparr>\<rparr>) (l @ ''\<newline>'') of
              None \<Rightarrow> None
            | Some (ev, c', Panics) \<Rightarrow> Some (Wrote p # ev, c', Panics)
            | Some (ev, c', Returns (Some err)) \<Rightarrow> Some (Wrote p # ev, c', Returns err)
            | Some (ev, c', Returns None) \<Rightarrow>
                map_option (\<lambda>(ev', r). (Wrote p # ev @ ev', r)) (Loop_from c' rest))"
  using assms(1,2)
  by (subst Loop_from.simps)
     (auto simp: Write_def ReadBytes_line[OF assms(3)] split: option.split result.split prod.split)

lemma Loop_from_lines:
  assumes "reliable (Out c)" and "reliable w" and "lastline_ok c"
    and "\<forall>l\<in>set ls. CHR ''\<newline>'' \<notin> set l" and "CHR ''\<newline>'' \<notin> set tail"
  shows "\<exists>ev c' r outs stop.
           Loop_from (c\<lparr>Out := w\<rparr>) (concat (map (\<lambda>l. l @ ''\<newline>'') ls) @ tail) = Some (ev, c', r)
           \<and> line_outputs c ls = Some (outs, stop)
           \<and> writes ev = concat (map (\<lambda>out. Prompt c # out) outs)
                           @ (case stop of None \<Rightarrow> [Prompt c] | Some s \<Rightarrow> [])
           \<and> calls (Out c') = calls w @ writes ev
           \<and> r = (case stop of None \<Rightarrow> Returns io_EOF | Some s \<Rightarrow> s)"
  using assms
proof (induction ls arbitrary: c w)
  case Nil
  have "fails (Out (c\<lparr>Out := w\<rparr>)) (calls (Out (c\<lparr>Out := w\<rparr>))) (Prompt (c\<lparr>Out := w\<rparr>)) = None"
    using Nil.prems(2) by (simp add: reliable_def)
  from Loop_from_EOF[OF this Nil.prems(5)] show ?case by simp
next
  case (Cons l ls)
  let ?rest = "concat (map (\<lambda>l. l @ ''\<newline>'') ls) @ tail"
  let ?w1 = "w\<lparr>calls := calls w @ [Prompt c]\<rparr>"
  have nl: "CHR ''\<newline>'' \<notin> set l" and nls: "\<forall>l\<in>set ls. CHR ''\<newline>'' \<notin> set l"
    using Cons.prems(4) by simp_all
  have pc: "Prompt (c\<lparr>Out := w\<rparr>) = Prompt c" by simp
  have f: "fails (Out (c\<lparr>Out := w\<rparr>)) (calls (Out (c\<lparr>Out := w\<rparr>))) (Prompt c) = None"
    using Cons.prems(2) by (simp add: reliable_def)
  have L: "Loop_from (c\<lparr>Out := w\<rparr>) (l @ ''\<newline>'' @ ?rest) =
           (case one (c\<lparr>Out := ?w1\<rparr>) (l @ ''\<newline>'') of
              None \<Rightarrow> None
            | Some (ev, c', Panics) \<Rightarrow> Some (Wrote (Prompt c) # ev, c', Panics)
            | Some (ev, c', Returns (Some err)) \<Rightarrow> Some (Wrote (Prompt c) # ev, c', Returns err)
            | Some (ev, c', Returns None) \<Rightarrow>
                map_option (\<lambda>(ev', r). (Wrote (Prompt c) # ev @ ev', r)) (Loop_from c' ?rest))"
    using Loop_from_line[OF pc f nl, of ?rest] by simp
  obtain ev1 c1 r1 where o: "one c (l @ ''\<newline>'') = Some (ev1, c1, r1)"
    using one_total[OF Cons.prems(3)] by blast
  let ?w2 = "?w1\<lparr>calls := calls ?w1 @ writes ev1\<rparr>"
  have r1w: "reliable ?w1" using Cons.prems(2) by simp
  have o': "one (c\<lparr>Out := ?w1\<rparr>) (l @ ''\<newline>'') = Some (ev1, c1\<lparr>Out := ?w2\<rparr>, r1)"
    using one_Out_indep[OF Cons.prems(1) r1w o] .
  have c1: "c1 = c\<lparr>LastLine := (if has_cmd c (l @ ''\<newline>'') then l @ ''\<newline>'' else LastLine c),
                    Out := (Out c)\<lparr>calls := calls (Out c) @ writes ev1\<rparr>\<rparr>"
    using o by (rule one_frame)
  show ?case
  proof (cases r1)
    case Panics
    with L o o' show ?thesis by simp
  next
    case (Returns eo)
    show ?thesis
    proof (cases eo)
      case (Some err)
      with Returns L o o' show ?thesis by simp
    next
      case None
      have ok1: "lastline_ok c1" unfolding c1 using Cons.prems(3) by (rule lastline_ok_frame)
      have rel1: "reliable (Out c1)" using Cons.prems(1) by (simp add: c1)
      have rel2: "reliable ?w2" using Cons.prems(2) by simp
      have pr: "Prompt c1 = Prompt c" by (simp add: c1)
      from Cons.IH[OF rel1 rel2 ok1 nls Cons.prems(5)]
      obtain ev c' r outs stop where
        ih: "Loop_from (c1\<lparr>Out := ?w2\<rparr>) ?rest = Some (ev, c', r)"
            "line_outputs c1 ls = Some (outs, stop)"
            "writes ev = concat (map (\<lambda>out. Prompt c1 # out) outs)
                         @ (case stop of None \<Rightarrow> [Prompt c1] | Some s \<Rightarrow> [])"
            "calls (Out c') = calls ?w2 @ writes ev"
            "r = (case stop of None \<Rightarrow> Returns io_EOF | Some s \<Rightarrow> s)"
        by blast
      have "Loop_from (c\<lparr>Out := w\<rparr>) (l @ ''\<newline>'' @ ?rest) = Some (Wrote (Prompt c) # ev1 @ ev, c', r)"
        using L o' Returns None ih(1) by simp
      moreover have "line_outputs c (l # ls) = Some (writes ev1 # outs, stop)"
        using o Returns None ih(2) by simp
      moreover have "writes (Wrote (Prompt c) # ev1 @ ev) =
                       concat (map (\<lambda>out. Prompt c # out) (writes ev1 # outs))
                       @ (case stop of None \<Rightarrow> [Prompt c] | Some s \<Rightarrow> [])"
        using ih(3) unfolding pr by (simp add: writes_append)
      moreover have "calls (Out c') = calls w @ writes (Wrote (Prompt c) # ev1 @ ev)"
        using ih(4) by (simp add: writes_append)
      ultimately show ?thesis using ih(5) by simp
    qed
  qed
qed

lemma test_outputs:
  "line_outputs ((New commands [] bytes_Buffer)\<lparr>In := ''good x\<newline>\<newline>bad\<newline>good\<newline>''\<rparr>)
     [''good x'', [], ''bad'', ''good''] =
   Some ([[''good [x]\<newline>''], [''good [x]\<newline>''], [''bad\<newline>'']],
         Some (Returns (errorString ''oops'')))"
  by code_simp

lemma test_has_cmd:
  "filter (has_cmd (New commands [] bytes_Buffer)) [''hello '', ''  '', ''good''] = [''hello '', ''good'']"
  by code_simp

section \<open>The claims\<close>

text \<open>
  C1. For a command name \<open>n\<close> (a word) that the table maps to the handler \<open>h\<close>, and a line
  made of \<open>n\<close> followed by the words \<open>args\<close>, each after a non-empty run of white space
  (white space may also lead and trail), \<^verbatim>\<open>one\<close> with the default tokenizer assigns the
  line to \<^verbatim>\<open>LastLine\<close>, looks \<open>n\<close> up, calls \<open>h\<close> once, with exactly \<open>args\<close> in order,
  and calls no other callback; it then writes exactly the output of \<open>h\<close> (nothing when
  that is empty) and returns the error of \<open>h\<close>, or the writer's if the write failed.
\<close>

theorem C1_registered_command:
  assumes tok: "Tokens c = Fields"
    and reg: "Commands c n = Some h"
    and res: "h args = (out, err)"
    and n: "is_word n"
    and args: "list_all is_word args"
    and seps: "length seps = length args" "list_all (\<lambda>s. s \<noteq> [] \<and> is_blank s) seps"
    and blank: "is_blank lead" "is_blank trail"
    and line: "line = lead @ n @ concat (map2 (@) seps args) @ trail"
  shows "one c line =
     Some (if out = [] then
             ([SetLastLine line, Lookup n, CallCmdFn n args], c\<lparr>LastLine := line\<rparr>, Returns err)
           else
             ([SetLastLine line, Lookup n, CallCmdFn n args, Wrote out],
              c\<lparr>LastLine := line, Out := (Out c)\<lparr>calls := calls (Out c) @ [out]\<rparr>\<rparr>,
              Returns (case fails (Out c) (calls (Out c)) out of
                         None \<Rightarrow> err | Some werr \<Rightarrow> Some werr)))"
proof -
  have "Fields line = n # args"
    unfolding line using blank(1) n seps args blank(2) by (rule Fields_command_line)
  then have p: "parseLine c line = (n, args)"
    using tok by (simp add: parseLine_Fields)
  have "n \<noteq> []" using n by (simp add: is_word_def)
  with p have "one c line = Some (emit (dispatch c line n args))"
    by (rule one_cmd)
  then show ?thesis
    using reg res by (cases "out = []") (simp_all add: dispatch_found emit_empty emit_msg)
qed

text \<open>Scenario A of the specification: the line \<^verbatim>\<open>good arg1 arg2\<close> on the table of the tests.\<close>

theorem C1_registered_command_witness:
  "one (New commands [] bytes_Buffer) ''good arg1 arg2'' =
     Some ([SetLastLine ''good arg1 arg2'', Lookup ''good'', CallCmdFn ''good'' [''arg1'', ''arg2''],
            Wrote (''good [arg1 arg2]'' @ ''\<newline>'')],
           (New commands [] bytes_Buffer)
             \<lparr>LastLine := ''good arg1 arg2'',
              Out := bytes_Buffer\<lparr>calls := [''good [arg1 arg2]'' @ ''\<newline>'']\<rparr>\<rparr>,
           Returns None)"
proof -
  let ?c = "New commands [] bytes_Buffer"
  have 1: "Tokens ?c = Fields" by (simp add: New_def)
  have 2: "Commands ?c ''good'' = Some good" by (simp add: New_def commands_def)
  have 3: "good [''arg1'', ''arg2''] = (''good [arg1 arg2]'' @ ''\<newline>'', None)"
    by (simp add: good_def Sprint_def)
  have 4: "is_word ''good''" by (simp add: is_word_def isSpace_def)
  have 5: "list_all is_word [''arg1'', ''arg2'']" by (simp add: is_word_def isSpace_def)
  have 6: "length ['' '', '' ''] = length [''arg1'', ''arg2'']" by simp
  have 7: "list_all (\<lambda>s. s \<noteq> [] \<and> is_blank s) ['' '', '' '']" by (simp add: is_blank_def isSpace_def)
  have 8: "is_blank []" by (simp add: is_blank_def)
  have 9: "''good arg1 arg2'' = [] @ ''good'' @ concat (map2 (@) ['' '', '' ''] [''arg1'', ''arg2'']) @ []"
    by simp
  show ?thesis
    using C1_registered_command[OF 1 2 3 4 5 6 7 8 8 9]
    by (simp add: New_def bytes_Buffer_def)
qed

text \<open>
  C2, as amended. Whatever the tokenizer, after any sequence of calls of \<^verbatim>\<open>one\<close> on an
  interpreter whose stored line can be repeated (as it can after \<^verbatim>\<open>New\<close>), every call has
  returned and \<^verbatim>\<open>LastLine\<close> is the last of the processed lines that yielded a command, that
  is, whose first token exists and is not empty; it is unchanged when there was none. A
  line with no token, or with an empty first token, never changes it.
\<close>

theorem C2_LastLine_invariant:
  assumes "lastline_ok c"
  shows "\<exists>c'. ones c ls = Some c'
        \<and> LastLine c' = (if filter (has_cmd c) ls = [] then LastLine c
                         else last (filter (has_cmd c) ls))"
  using assms by (rule ones_LastLine)

text \<open>
  C2 as stated, with ``at least one token'' for every tokenizer, fails: under a
  tokenizer whose first token is empty the line \<^verbatim>\<open>foo\<close> yields the tokens \<open>['''', ''x'']\<close>, and
  \<^verbatim>\<open>LastLine\<close> is still empty after the call.
\<close>

theorem C2_LastLine_invariant_counterexample:
  "yields_token ((New commands [] bytes_Buffer)\<lparr>Tokens := empty_first\<rparr>) ''foo''
   \<and> map_option LastLine (ones ((New commands [] bytes_Buffer)\<lparr>Tokens := empty_first\<rparr>) [''foo''])
       = Some []"
proof -
  let ?c = "(New commands [] bytes_Buffer)\<lparr>Tokens := empty_first\<rparr>"
  have 1: "TrimSpace ''foo'' \<noteq> []" by (simp add: TrimSpace_def isSpace_def)
  then have y: "yields_token ?c ''foo''" by (simp add: yields_token_def empty_first_def)
  have "fst (parseLine ?c ''foo'') = []" using 1 by (simp add: parseLine_def empty_first_def)
  moreover have "EmptyLine ?c = EmptyLine_New" by (simp add: New_def)
  ultimately have "one ?c ''foo'' = Some ([CallEmptyLine], ?c, Returns None)"
    by (simp add: one_empty_New) (simp add: New_def)
  then have "ones ?c [''foo''] = Some ?c" by simp
  then have "map_option LastLine (ones ?c [''foo'']) = Some []" by (simp add: New_def)
  with y show ?thesis by blast
qed

text \<open>The first two lines of \<^verbatim>\<open>TestOne\<close>, then \<^verbatim>\<open>good\<close>.\<close>

theorem C2_LastLine_invariant_witness:
  "\<exists>c'. ones (New commands [] bytes_Buffer) [''hello '', ''  '', ''good''] = Some c'
        \<and> LastLine c' = ''good''"
proof -
  have 1: "lastline_ok (New commands [] bytes_Buffer)" by (rule lastline_ok_New)
  show ?thesis
    using C2_LastLine_invariant[OF 1, of "[''hello '', ''  '', ''good'']"] test_has_cmd
    by simp
qed

text \<open>
  C3. When the handler of the line's command returns a non-empty output together with an
  error, \<^verbatim>\<open>one\<close> calls \<^verbatim>\<open>Write\<close> with the output and then returns a non-nil error: the
  handler's when the write succeeded (the writer's otherwise). \<^verbatim>\<open>Loop\<close>, reading that line
  after a prompt it could write, returns with that error right after the output: the
  prompt and the output are all it writes, whatever input follows.
\<close>

theorem C3_output_then_error:
  assumes p: "parseLine c line = (n, args)" and n: "n \<noteq> []"
    and reg: "Commands c n = Some h" and res: "h args = (msg, Some e)" and msg: "msg \<noteq> []"
  shows "one c line =
           Some ([SetLastLine line, Lookup n, CallCmdFn n args, Wrote msg],
                 c\<lparr>LastLine := line, Out := (Out c)\<lparr>calls := calls (Out c) @ [msg]\<rparr>\<rparr>,
                 Returns (Some (case fails (Out c) (calls (Out c)) msg of
                                  None \<Rightarrow> e | Some werr \<Rightarrow> werr)))
         \<and> (\<forall>l rest.
               line = l @ ''\<newline>'' \<and> CHR ''\<newline>'' \<notin> set l
               \<and> fails (Out c) (calls (Out c)) (Prompt c) = None \<longrightarrow>
               Loop (c\<lparr>In := line @ rest\<rparr>) =
                 Some ([Wrote (Prompt c), SetLastLine line, Lookup n, CallCmdFn n args, Wrote msg],
                       c\<lparr>In := line @ rest, LastLine := line,
                         Out := (Out c)\<lparr>calls := calls (Out c) @ [Prompt c, msg]\<rparr>\<rparr>,
                       Returns (case fails (Out c) (calls (Out c) @ [Prompt c]) msg of
                                  None \<Rightarrow> e | Some werr \<Rightarrow> werr)))"
proof -
  have gen: "one d line =
           Some ([SetLastLine line, Lookup n, CallCmdFn n args, Wrote msg],
                 d\<lparr>LastLine := line, Out := (Out d)\<lparr>calls := calls (Out d) @ [msg]\<rparr>\<rparr>,
                 Returns (Some (case fails (Out d) (calls (Out d)) msg of
                                  None \<Rightarrow> e | Some werr \<Rightarrow> werr)))"
    if "parseLine d line = (n, args)" and "Commands d n = Some h" for d
  proof -
    have "one d line = Some (emit (dispatch d line n args))" using that(1) n by (rule one_cmd)
    then show ?thesis using that(2) res msg
      by (simp add: dispatch_found emit_msg split: option.split)
  qed
  have 1: "one c line =
           Some ([SetLastLine line, Lookup n, CallCmdFn n args, Wrote msg],
                 c\<lparr>LastLine := line, Out := (Out c)\<lparr>calls := calls (Out c) @ [msg]\<rparr>\<rparr>,
                 Returns (Some (case fails (Out c) (calls (Out c)) msg of
                                  None \<Rightarrow> e | Some werr \<Rightarrow> werr)))"
    using p reg by (rule gen)
  have 2: "Loop (c\<lparr>In := line @ rest\<rparr>) =
                 Some ([Wrote (Prompt c), SetLastLine line, Lookup n, CallCmdFn n args, Wrote msg],
                       c\<lparr>In := line @ rest, LastLine := line,
                         Out := (Out c)\<lparr>calls := calls (Out c) @ [Prompt c, msg]\<rparr>\<rparr>,
                       Returns (case fails (Out c) (calls (Out c) @ [Prompt c]) msg of
                                  None \<Rightarrow> e | Some werr \<Rightarrow> werr))"
    if l: "line = l @ ''\<newline>''" and nl: "CHR ''\<newline>'' \<notin> set l"
      and f: "fails (Out c) (calls (Out c)) (Prompt c) = None" for l rest
  proof -
    let ?d = "c\<lparr>In := line @ rest\<rparr>"
    let ?d1 = "?d\<lparr>Out := (Out ?d)\<lparr>calls := calls (Out ?d) @ [Prompt c]\<rparr>\<rparr>"
    have pd: "Prompt ?d = Prompt c" by simp
    have fd: "fails (Out ?d) (calls (Out ?d)) (Prompt c) = None" using f by simp
    have "parseLine ?d1 line = (n, args)" using p by simp
    moreover have "Commands ?d1 n = Some h" using reg by simp
    ultimately have o: "one ?d1 line =
           Some ([SetLastLine line, Lookup n, CallCmdFn n args, Wrote msg],
                 ?d1\<lparr>LastLine := line, Out := (Out ?d1)\<lparr>calls := calls (Out ?d1) @ [msg]\<rparr>\<rparr>,
                 Returns (Some (case fails (Out ?d1) (calls (Out ?d1)) msg of
                                  None \<Rightarrow> e | Some werr \<Rightarrow> werr)))"
      by (rule gen)
    have "Loop ?d = Loop_from ?d (l @ CHR ''\<newline>'' # rest)" using l by (simp add: Loop_def)
    also have "\<dots> = (case one ?d1 (l @ ''\<newline>'') of
              None \<Rightarrow> None
            | Some (ev, c', Panics) \<Rightarrow> Some (Wrote (Prompt c) # ev, c', Panics)
            | Some (ev, c', Returns (Some err)) \<Rightarrow> Some (Wrote (Prompt c) # ev, c', Returns err)
            | Some (ev, c', Returns None) \<Rightarrow>
                map_option (\<lambda>(ev', r). (Wrote (Prompt c) # ev @ ev', r)) (Loop_from c' rest))"
      using pd fd nl by (rule Loop_from_line)
    finally show ?thesis using o l by simp
  qed
  show ?thesis using 1 2 by blast
qed

text \<open>Scenario B of the specification: the line \<^verbatim>\<open>bad\<close>, alone and at the head of an input.\<close>

theorem C3_output_then_error_witness:
  "one (New commands [] bytes_Buffer) ''bad\<newline>'' =
     Some ([SetLastLine ''bad\<newline>'', Lookup ''bad'', CallCmdFn ''bad'' [], Wrote ''bad\<newline>''],
           (New commands [] bytes_Buffer)
             \<lparr>LastLine := ''bad\<newline>'', Out := bytes_Buffer\<lparr>calls := [''bad\<newline>'']\<rparr>\<rparr>,
           Returns (Some (errorString ''oops'')))
   \<and> Loop ((New commands [] bytes_Buffer)\<lparr>In := ''bad\<newline>good\<newline>''\<rparr>) =
       Some ([Wrote ''> '', SetLastLine ''bad\<newline>'', Lookup ''bad'', CallCmdFn ''bad'' [],
              Wrote ''bad\<newline>''],
             (New commands [] bytes_Buffer)
               \<lparr>In := ''bad\<newline>good\<newline>'', LastLine := ''bad\<newline>'',
                Out := bytes_Buffer\<lparr>calls := [''> '', ''bad\<newline>'']\<rparr>\<rparr>,
             Returns (errorString ''oops''))"
proof -
  let ?c = "New commands [] bytes_Buffer"
  have "Fields ([] @ ''bad'' @ concat (map2 (@) [] []) @ ''\<newline>'') = ''bad'' # []"
    by (rule Fields_command_line) (simp_all add: is_blank_def is_word_def isSpace_def)
  then have 1: "parseLine ?c ''bad\<newline>'' = (''bad'', [])"
    by (simp add: parseLine_Fields New_def)
  have 2: "''bad'' \<noteq> []" by simp
  have 3: "Commands ?c ''bad'' = Some bad" by (simp add: New_def commands_def)
  have 4: "bad [] = (''bad\<newline>'', Some (errorString ''oops''))" by (simp add: bad_def)
  have 5: "''bad\<newline>'' \<noteq> []" by simp
  note t = C3_output_then_error[OF 1 2 3 4 5]
  have a: "''bad\<newline>'' = ''bad'' @ ''\<newline>'' \<and> CHR ''\<newline>'' \<notin> set ''bad''
           \<and> fails (Out ?c) (calls (Out ?c)) (Prompt ?c) = None"
    by (simp add: New_def bytes_Buffer_def)
  from t[THEN conjunct1] t[THEN conjunct2, rule_format, OF a, of "''good\<newline>''"]
  show ?thesis by (simp add: New_def bytes_Buffer_def DefaultPrompt_def)
qed





text \<open>
  C6. With the \<^verbatim>\<open>EmptyLine\<close> of \<^verbatim>\<open>New\<close> and an output stream that does not fail, a call of
  \<^verbatim>\<open>one\<close> on a line that yields a command, followed by a call on a blank line, makes the
  second call repeat the first: after the call of \<^verbatim>\<open>EmptyLine\<close> it has the same events, it
  writes the same output and returns the same result, and \<^verbatim>\<open>LastLine\<close> is the first line
  after either call.
\<close>

theorem C6_repeat:
  assumes el: "EmptyLine c = EmptyLine_New" and rel: "reliable (Out c)"
    and cmd: "has_cmd c line" and blank: "is_blank b"
  shows "\<exists>ev c1 c2 r.
           one c line = Some (ev, c1, r)
           \<and> one c1 b = Some (CallEmptyLine # ev, c2, r)
           \<and> calls (Out c1) = calls (Out c) @ writes ev
           \<and> calls (Out c2) = calls (Out c1) @ writes ev
           \<and> LastLine c1 = line \<and> LastLine c2 = line"
proof -
  obtain n args where p: "parseLine c line = (n, args)" "n \<noteq> []"
    using cmd by (cases "parseLine c line") (auto simp: has_cmd_def)
  obtain ev0 c0 r0 where d: "dispatch c line n args = (ev0, c0, r0)"
    by (cases "dispatch c line n args")
  obtain ev c1 r where e: "emit (ev0, c0, r0) = (ev, c1, r)"
    by (cases "emit (ev0, c0, r0)")
  have o1: "one c line = Some (ev, c1, r)" using p d e by (simp add: one_cmd)
  have c0: "c0 = c\<lparr>LastLine := line\<rparr>" and w0: "writes ev0 = []"
    using dispatch_frame[OF d] by simp_all
  have c1: "c1 = c\<lparr>LastLine := line, Out := (Out c)\<lparr>calls := calls (Out c) @ writes ev\<rparr>\<rparr>"
    using one_frame[OF o1] cmd by simp
  let ?c2 = "c1\<lparr>Out := (Out c1)\<lparr>calls := calls (Out c1) @ writes ev\<rparr>\<rparr>"
  have pb: "fst (parseLine c1 b) = []" using blank by (simp add: parseLine_blank)
  have el1: "EmptyLine c1 = EmptyLine_New" using el c1 by simp
  have l1: "LastLine c1 = line" using c1 by simp
  have ne: "line \<noteq> []" using cmd by (rule has_cmd_not_Nil)
  have p1: "parseLine c1 line = (n, args)" using p c1 by simp
  have d1: "dispatch c1 line n args = (ev0, c1\<lparr>LastLine := line\<rparr>, r0)"
    using d by (rule dispatch_same[rotated 2]) (simp_all add: c1)
  have same: "c1\<lparr>LastLine := line\<rparr> = c1" using c1 by simp
  have r0: "reliable (Out c0)" using rel c0 by simp
  have r1: "reliable (Out c1)" using rel c1 by (simp add: reliable_def)
  have e1: "emit (ev0, c1, r0) = (ev, ?c2, r)"
    using emit_reliable_same[OF r0 r1 e] w0 by simp
  have "one c1 line = Some (ev, ?c2, r)"
    using p1 p(2) d1 same e1 by (simp add: one_cmd)
  then have o2: "one c1 b = Some (CallEmptyLine # ev, ?c2, r)"
    using one_empty_New[OF pb el1] l1 ne by simp
  show ?thesis using o1 o2 c1 by auto
qed

text \<open>The lines \<^verbatim>\<open>good x\<close> and two blanks, on the table of the tests.\<close>

theorem C6_repeat_witness:
  "\<exists>ev c1 c2 r.
     one (New commands [] bytes_Buffer) ''good x'' = Some (ev, c1, r)
     \<and> one c1 ''  '' = Some (CallEmptyLine # ev, c2, r)
     \<and> calls (Out c1) = calls (Out (New commands [] bytes_Buffer)) @ writes ev
     \<and> calls (Out c2) = calls (Out c1) @ writes ev
     \<and> LastLine c1 = ''good x'' \<and> LastLine c2 = ''good x''"
proof -
  let ?c = "New commands [] bytes_Buffer"
  have 1: "EmptyLine ?c = EmptyLine_New" by (simp add: New_def)
  have 2: "reliable (Out ?c)" by (simp add: New_def reliable_def bytes_Buffer_def)
  have 3: "has_cmd ?c ''good x''"
    by (simp add: has_cmd_def parseLine_Fields New_def Fields_good_x)
  have 4: "is_blank ''  ''" by (simp add: is_blank_def isSpace_def)
  show ?thesis by (rule C6_repeat[OF 1 2 3 4])
qed

text \<open>
  C7. When the callback that \<^verbatim>\<open>one\<close> selects (a handler, \<^verbatim>\<open>Default\<close> or \<^verbatim>\<open>EmptyLine\<close>) returns a
  non-empty output and the write of that output fails, \<^verbatim>\<open>one\<close> returns the error of the
  write, whatever error (or none) the callback returned.
\<close>

theorem C7_write_error_returned:
  assumes p: "parseLine c line = (cmd, args)"
    and sel: "cmd \<noteq> [] \<and> Commands c cmd = Some fn \<and> fn args = (msg, cmderr)
              \<or> cmd \<noteq> [] \<and> Commands c cmd = None \<and> Default c line = Returns (msg, cmderr)
              \<or> cmd = [] \<and> EmptyLine c = EmptyLine_func f \<and> f () = (msg, cmderr)"
    and msg: "msg \<noteq> []"
    and wfail: "fails (Out c) (calls (Out c)) msg = Some werr"
  shows "\<exists>ev c'. one c line = Some (ev @ [Wrote msg], c', Returns (Some werr))
                 \<and> calls (Out c') = calls (Out c) @ [msg]"
proof -
  consider (h) "cmd \<noteq> []" "Commands c cmd = Some fn" "fn args = (msg, cmderr)"
    | (d) "cmd \<noteq> []" "Commands c cmd = None" "Default c line = Returns (msg, cmderr)"
    | (e) "cmd = []" "EmptyLine c = EmptyLine_func f" "f () = (msg, cmderr)"
    using sel by auto
  then show ?thesis
  proof cases
    case h
    have "one c line = Some (emit (dispatch c line cmd args))" using p h(1) by (rule one_cmd)
    then show ?thesis using h msg wfail by (simp add: dispatch_found emit_msg)
  next
    case d
    have "one c line = Some (emit (dispatch c line cmd args))" using p d(1) by (rule one_cmd)
    then show ?thesis using d msg wfail by (simp add: dispatch_missing emit_msg)
  next
    case e
    have "fst (parseLine c line) = []" using p e(1) by simp
    then have "one c line = Some (emit ([CallEmptyLine], c, Returns (f ())))"
      using e(2) by (rule one_empty_func)
    then show ?thesis using e msg wfail by (simp add: emit_msg)
  qed
qed

text \<open>The handler \<^verbatim>\<open>bad\<close>, which returns \<^verbatim>\<open>oops\<close>, on a closed output stream.\<close>

theorem C7_write_error_returned_witness:
  "\<exists>ev c'. one (New commands [] (closed_Writer (errorString ''closed pipe''))) ''  bad \<newline>'' =
       Some (ev @ [Wrote ''bad\<newline>''], c', Returns (Some (errorString ''closed pipe'')))
     \<and> calls (Out c') = calls (Out (New commands [] (closed_Writer (errorString ''closed pipe'')))) @ [''bad\<newline>'']"
proof -
  let ?c = "New commands [] (closed_Writer (errorString ''closed pipe''))"
  have t: "Tokens ?c = Fields" by (simp add: New_def)
  have 1: "parseLine ?c ''  bad \<newline>'' = (''bad'', [])" using t by (rule parseLine_bad)
  have 2: "''bad'' \<noteq> [] \<and> Commands ?c ''bad'' = Some bad \<and> bad [] = (''bad\<newline>'', Some (errorString ''oops''))
           \<or> ''bad'' \<noteq> [] \<and> Commands ?c ''bad'' = None \<and> Default ?c ''  bad \<newline>'' = Returns (''bad\<newline>'', Some (errorString ''oops''))
           \<or> ''bad'' = [] \<and> EmptyLine ?c = EmptyLine_func (\<lambda>u. ([], None)) \<and> (\<lambda>u. ([], None)) () = (''bad\<newline>'', Some (errorString ''oops''))"
    by (simp add: New_def commands_def bad_def)
  have 3: "''bad\<newline>'' \<noteq> []" by simp
  have 4: "fails (Out ?c) (calls (Out ?c)) ''bad\<newline>'' = Some (errorString ''closed pipe'')"
    by (simp add: New_def closed_Writer_def)
  show ?thesis by (rule C7_write_error_returned[OF 1 2 3 4])
qed

text \<open>
  C8. Let the input be the lines \<open>ls\<close>, each with its terminator (and possibly an
  unterminated rest), the output stream one that does not fail, and the stored line one
  that can be repeated. Then \<^verbatim>\<open>Loop\<close> returns, and what it has written is, for each line
  processed, in order, the prompt followed by the output of that line, up to and including
  the first line whose processing returns an error (or panics), which is what \<^verbatim>\<open>Loop\<close>
  returns, with no prompt after it; when no line does, a last prompt follows and \<^verbatim>\<open>Loop\<close>
  returns \<^verbatim>\<open>io.EOF\<close>.
\<close>

theorem C8_loop_alternation:
  assumes rel: "reliable (Out c)" and ok: "lastline_ok c"
    and lines: "\<forall>l\<in>set ls. CHR ''\<newline>'' \<notin> set l" and tail: "CHR ''\<newline>'' \<notin> set tail"
    and inp: "In c = concat (map (\<lambda>l. l @ ''\<newline>'') ls) @ tail"
  shows "\<exists>ev c' r outs stop.
           Loop c = Some (ev, c', r)
           \<and> line_outputs c ls = Some (outs, stop)
           \<and> calls (Out c') =
               calls (Out c) @ concat (map (\<lambda>out. Prompt c # out) outs)
                 @ (case stop of None \<Rightarrow> [Prompt c] | Some s \<Rightarrow> [])
           \<and> r = (case stop of None \<Rightarrow> Returns io_EOF | Some s \<Rightarrow> s)"
proof -
  have "c\<lparr>Out := Out c\<rparr> = c" by simp
  with Loop_from_lines[OF rel rel ok lines tail] inp show ?thesis
    by (auto simp: Loop_def)
qed

text \<open>
  Four lines, the third of which fails: three prompts, each followed by an output, and
  nothing for the fourth line.
\<close>

theorem C8_loop_alternation_witness:
  "\<exists>ev c'.
     Loop ((New commands [] bytes_Buffer)\<lparr>In := ''good x\<newline>\<newline>bad\<newline>good\<newline>''\<rparr>)
       = Some (ev, c', Returns (errorString ''oops''))
     \<and> calls (Out c') =
         [''> '', ''good [x]\<newline>'', ''> '', ''good [x]\<newline>'', ''> '', ''bad\<newline>'']"
proof -
  let ?c = "(New commands [] bytes_Buffer)\<lparr>In := ''good x\<newline>\<newline>bad\<newline>good\<newline>''\<rparr>"
  have 1: "reliable (Out ?c)" by (simp add: New_def reliable_def bytes_Buffer_def)
  have 2: "lastline_ok ?c" by (simp add: New_def lastline_ok_def)
  have 3: "\<forall>l\<in>set [''good x'', [], ''bad'', ''good'']. CHR ''\<newline>'' \<notin> set l" by simp
  have 4: "CHR ''\<newline>'' \<notin> set []" by simp
  have 5: "In ?c = concat (map (\<lambda>l. l @ ''\<newline>'') [''good x'', [], ''bad'', ''good'']) @ []"
    by simp
  show ?thesis
    using C8_loop_alternation[OF 1 2 3 4 5] test_outputs
    by (auto simp: New_def DefaultPrompt_def bytes_Buffer_def)
qed

text \<open>
  C9. When the tokenizer returns a first token that is empty for a line that is not blank,
  \<^verbatim>\<open>one\<close> does what it does on an empty line: it calls \<^verbatim>\<open>EmptyLine\<close> and writes what that
  returns; it neither looks the command up nor calls \<^verbatim>\<open>Default\<close> nor assigns the line to
  \<^verbatim>\<open>LastLine\<close> (with the \<^verbatim>\<open>EmptyLine\<close> of \<^verbatim>\<open>New\<close>, the rest is the repetition of the stored
  line). Whenever the call returns, \<^verbatim>\<open>LastLine\<close> has the value it had.
\<close>

theorem C9_empty_first_token:
  assumes ne: "TrimSpace line \<noteq> []" and tok: "Tokens c (TrimSpace line) = [] # rest"
  shows "one c line =
           (case EmptyLine c of
              EmptyLine_func f \<Rightarrow>
                (case f () of
                   (msg, err) \<Rightarrow>
                     if msg = [] then Some ([CallEmptyLine], c, Returns err)
                     else Some ([CallEmptyLine, Wrote msg],
                                c\<lparr>Out := (Out c)\<lparr>calls := calls (Out c) @ [msg]\<rparr>\<rparr>,
                                Returns (case fails (Out c) (calls (Out c)) msg of
                                           None \<Rightarrow> err | Some werr \<Rightarrow> Some werr)))
            | EmptyLine_New \<Rightarrow>
                if LastLine c = [] then Some ([CallEmptyLine], c, Returns None)
                else map_option (\<lambda>(ev, c', r). (CallEmptyLine # ev, c', r)) (one c (LastLine c)))
         \<and> one c line = one c []
         \<and> (\<forall>ev c' r. one c line = Some (ev, c', r) \<longrightarrow>
               LastLine c' = LastLine c \<and> (\<exists>ev'. ev = CallEmptyLine # ev'))"
proof -
  have p: "fst (parseLine c line) = []" using ne tok by (simp add: parseLine_def)
  have p0: "fst (parseLine c []) = []" by (simp add: parseLine_def TrimSpace_def)
  have 1: "one c line =
           (case EmptyLine c of
              EmptyLine_func f \<Rightarrow>
                (case f () of
                   (msg, err) \<Rightarrow>
                     if msg = [] then Some ([CallEmptyLine], c, Returns err)
                     else Some ([CallEmptyLine, Wrote msg],
                                c\<lparr>Out := (Out c)\<lparr>calls := calls (Out c) @ [msg]\<rparr>\<rparr>,
                                Returns (case fails (Out c) (calls (Out c)) msg of
                                           None \<Rightarrow> err | Some werr \<Rightarrow> Some werr)))
            | EmptyLine_New \<Rightarrow>
                if LastLine c = [] then Some ([CallEmptyLine], c, Returns None)
                else map_option (\<lambda>(ev, c', r). (CallEmptyLine # ev, c', r)) (one c (LastLine c)))"
  proof (cases "EmptyLine c")
    case (EmptyLine_func f)
    obtain msg e where "f () = (msg, e)" by (cases "f ()")
    with p EmptyLine_func show ?thesis
      by (cases "msg = []") (simp_all add: one_empty_func emit_empty emit_msg)
  next
    case EmptyLine_New
    from one_empty_New[OF p EmptyLine_New] EmptyLine_New show ?thesis by simp
  qed
  have 2: "one c line = one c []"
  proof (cases "EmptyLine c")
    case (EmptyLine_func f)
    with p p0 show ?thesis by (simp add: one_empty_func)
  next
    case EmptyLine_New
    from one_empty_New[OF p EmptyLine_New] one_empty_New[OF p0 EmptyLine_New] show ?thesis by simp
  qed
  have h: "\<not> has_cmd c line" using p by (simp add: has_cmd_def)
  have 3: "LastLine c' = LastLine c \<and> (\<exists>ev'. ev = CallEmptyLine # ev')"
    if "one c line = Some (ev, c', r)" for ev c' r
    using one_LastLine[OF that] one_empty_hd[OF p that] h by simp
  show ?thesis using 1 2 3 by blast
qed

text \<open>The line \<^verbatim>\<open>foo\<close> under a tokenizer that returns an empty first token.\<close>

theorem C9_empty_first_token_witness:
  "one ((New commands [] bytes_Buffer)\<lparr>Tokens := empty_first\<rparr>) ''foo'' =
     Some ([CallEmptyLine], (New commands [] bytes_Buffer)\<lparr>Tokens := empty_first\<rparr>, Returns None)"
proof -
  let ?c = "(New commands [] bytes_Buffer)\<lparr>Tokens := empty_first\<rparr>"
  have 1: "TrimSpace ''foo'' \<noteq> []" by (simp add: TrimSpace_def isSpace_def)
  have 2: "Tokens ?c (TrimSpace ''foo'') = [] # [''x'']" by (simp add: empty_first_def)
  show ?thesis
    using C9_empty_first_token[OF 1 2] by (simp add: New_def)
qed

text \<open>
  C10. With the \<^verbatim>\<open>Default\<close> of \<^verbatim>\<open>New\<close>, whatever the tokenizer, the table and the stored
  line, a call of \<^verbatim>\<open>one\<close> that returns has not panicked, and every line that \<^verbatim>\<open>Default\<close>
  was called with in its course has a first field: the index \<^verbatim>\<open>strings.Fields(line)[0]\<close> is
  in bounds. (A call that does not return never reaches \<^verbatim>\<open>Default\<close>.)
\<close>

theorem C10_default_Default_in_bounds:
  assumes dflt: "Default c = Default_New" and ret: "one c line = Some (ev, c', r)"
  shows "r \<noteq> Panics \<and> (\<forall>l\<in>set (default_calls ev). Fields l \<noteq> [])"
proof -
  obtain cmd args where p: "parseLine c line = (cmd, args)" by (cases "parseLine c line")
  show ?thesis
  proof (cases "cmd = []")
    case False
    obtain ev0 c0 r0 where d: "dispatch c line cmd args = (ev0, c0, r0)"
      by (cases "dispatch c line cmd args")
    from ret p False d have e: "emit (ev0, c0, r0) = (ev, c', r)" by (simp add: one_cmd)
    from dispatch_Default_New[OF dflt p False d] emit_events[OF e] show ?thesis by simp
  next
    case True
    show ?thesis
    proof (cases "EmptyLine c")
      case (EmptyLine_func f)
      with ret p True have "emit ([CallEmptyLine], c, Returns (f ())) = (ev, c', r)"
        by (simp add: one_empty_func)
      from emit_events[OF this] show ?thesis by simp
    next
      case EmptyLine_New
      show ?thesis
      proof (cases "LastLine c = []")
        case l: True
        with ret p True EmptyLine_New show ?thesis by (auto simp: one_unfold)
      next
        case l: False
        obtain cmd' args' where p': "parseLine c (LastLine c) = (cmd', args')"
          by (cases "parseLine c (LastLine c)")
        obtain ev0 c0 r0 where d: "dispatch c (LastLine c) cmd' args' = (ev0, c0, r0)"
          by (cases "dispatch c (LastLine c) cmd' args'")
        obtain ev1 c1 r1 where e: "emit (ev0, c0, r0) = (ev1, c1, r1)"
          by (cases "emit (ev0, c0, r0)")
        from ret p True EmptyLine_New l p' d e
        have n: "cmd' \<noteq> []" and "ev = CallEmptyLine # ev1" and "r = r1"
          by (auto simp: one_unfold split: if_splits)
        with dispatch_Default_New[OF dflt p' n d] emit_events[OF e] show ?thesis by simp
      qed
    qed
  qed
qed

text \<open>The first line of \<^verbatim>\<open>TestOne\<close>, which reaches \<^verbatim>\<open>Default\<close>.\<close>

theorem C10_default_Default_in_bounds_witness:
  "Returns None \<noteq> (Panics :: error option result)
   \<and> default_calls [SetLastLine ''hello '', Lookup ''hello'', CallDefault ''hello '',
                     Wrote ''unrecognized command: hello\<newline>''] = [''hello '']
   \<and> Fields ''hello '' \<noteq> []"
proof -
  have d: "Default (New commands [] bytes_Buffer) = Default_New" by (simp add: New_def)
  show ?thesis
    using C10_default_Default_in_bounds[OF d one_hello] by simp
qed

end
